theory Spec2Isabelle
  imports Main "HOL-Library.Sublist"
begin

section \<open>Strings and character classes\<close>

text \<open>
  A Python \<open>str\<close> is a sequence of Unicode code points. Code points are natural
  numbers here, a string is a list of them. \<open>u\<close> embeds an ASCII literal.
\<close>

type_synonym codepoint = nat
type_synonym ustr = "codepoint list"

definition u :: "string \<Rightarrow> ustr" where
  "u s = map of_char s"

text \<open>
  The regular expressions of \<open>symbols.py\<close> are \<open>str\<close> patterns, so \<open>\\s\<close>,
  \<open>\\d\<close> and \<open>\\w\<close> are the Unicode classes of CPython: \<open>\\s\<close> is
  \<open>str.isspace\<close>, \<open>\\d\<close> is the category of decimal digits, \<open>\\w\<close> is
  \<open>str.isalnum\<close> or the underscore.

  The white space of Unicode is a short fixed list (U+0009..U+000D, U+001C..U+0020,
  U+0085, U+00A0, U+1680, U+2000..U+200A, U+2028, U+2029, U+202F, U+205F, U+3000).
\<close>

definition is_space :: "codepoint \<Rightarrow> bool" where
  "is_space c \<longleftrightarrow>
     (9 \<le> c \<and> c \<le> 13) \<or> (28 \<le> c \<and> c \<le> 32) \<or> c = 133 \<or> c = 160 \<or> c = 5760 \<or>
     (8192 \<le> c \<and> c \<le> 8202) \<or> c = 8232 \<or> c = 8233 \<or> c = 8239 \<or> c = 8287 \<or>
     c = 12288"

text \<open>
  The decimal digits and the alphanumeric characters beyond ASCII are tables of the
  Unicode character database, which is no part of the repository: the database is a
  parameter \<open>U\<close>, giving each code point from 128 on its class. Below 128 the classes
  are the ASCII ones. A code point has one general category, so a white-space character
  is neither a digit nor a word character, and a decimal digit is a word character.
\<close>

datatype category = Decimal | Alnum | Other

type_synonym unicode_db = "codepoint \<Rightarrow> category"

definition is_digit :: "unicode_db \<Rightarrow> codepoint \<Rightarrow> bool" where
  "is_digit U c \<longleftrightarrow>
     (if c < 128 then 48 \<le> c \<and> c \<le> 57 else \<not> is_space c \<and> U c = Decimal)"

definition is_word :: "unicode_db \<Rightarrow> codepoint \<Rightarrow> bool" where
  "is_word U c \<longleftrightarrow>
     (if c < 128
      then (48 \<le> c \<and> c \<le> 57) \<or> (65 \<le> c \<and> c \<le> 90) \<or> c = 95 \<or> (97 \<le> c \<and> c \<le> 122)
      else \<not> is_space c \<and> U c \<noteq> Other)"

section \<open>Substitution\<close>

text \<open>
  \<open>re.sub(pattern, repl, string)\<close> scans the string from the left. At each position
  the pattern is tried; on a match the replacement computed from the groups is emitted
  and the scan resumes behind the match, otherwise the character is copied and the scan
  moves one position on. A pattern is modelled by its matcher: given the character
  before the position (\<open>None\<close> at position 0, which is where \<open>^\<close> holds, and what a
  look-behind reads) and the text from the position on, it returns the groups of the
  match and the length of the match. No pattern of the module matches the empty string;
  a match of length 0 or beyond the text counts as no match.
\<close>

function scan ::
  "(codepoint option \<Rightarrow> ustr \<Rightarrow> ('g \<times> nat) option) \<Rightarrow> ('g \<Rightarrow> ustr) \<Rightarrow>
     codepoint option \<Rightarrow> ustr \<Rightarrow> ustr" where
  "scan pattern repl prev [] = []"
| "scan pattern repl prev (c # cs) =
     (case pattern prev (c # cs) of
        None \<Rightarrow> c # scan pattern repl (Some c) cs
      | Some (g, n) \<Rightarrow>
          if 0 < n \<and> n \<le> Suc (length cs)
          then repl g @ scan pattern repl (Some ((c # cs) ! (n - 1))) (drop n (c # cs))
          else c # scan pattern repl (Some c) cs)"
  by pat_completeness auto
termination
  by (relation "measure (\<lambda>(pattern, repl, prev, t). length t)") auto

definition re_sub ::
  "(codepoint option \<Rightarrow> ustr \<Rightarrow> ('g \<times> nat) option) \<Rightarrow> ('g \<Rightarrow> ustr) \<Rightarrow> ustr \<Rightarrow> ustr" where
  "re_sub pattern repl t = scan pattern repl None t"

text \<open>
  \<open>string.replace(old, new)\<close> replaces the occurrences of \<open>old\<close> found from the
  left, each search starting behind the previous occurrence.
\<close>

definition literal :: "ustr \<Rightarrow> codepoint option \<Rightarrow> ustr \<Rightarrow> (unit \<times> nat) option" where
  "literal old prev t = (if prefix old t then Some ((), length old) else None)"

definition replace :: "ustr \<Rightarrow> ustr \<Rightarrow> ustr \<Rightarrow> ustr" where
  "replace old new t = re_sub (literal old) (\<lambda>_. new) t"

section \<open>The patterns of the module\<close>

text \<open>
  Each matcher takes the longest run of a class where the pattern has a greedy
  repetition. That is the match Python finds: in every pattern below the character
  after a repetition must be outside the repeated class (white space, digits and the
  separators are pairwise disjoint, and \<open>=\<close>, \<open>+\<close>, \<open>%\<close>, \<open>&\<close>, \<open>.\<close>, \<open>)\<close> and the
  bullets belong to no class that is repeated before them), so giving characters back
  never turns a failure into a match.
\<close>

text \<open>\<open>(\\d{1,3})([.\\)])(\\s*)\<close> behind group 1, which the caller has matched as \<open>leading\<close>.\<close>

definition marker_tail ::
  "unicode_db \<Rightarrow> ustr \<Rightarrow> ustr \<Rightarrow> ((ustr \<times> ustr \<times> codepoint \<times> ustr) \<times> nat) option" where
  "marker_tail U leading t =
     (let number = take 3 (takeWhile (is_digit U) t) in
      if number = [] then None
      else
        (case drop (length number) t of
           [] \<Rightarrow> None
         | separator # r \<Rightarrow>
             if separator = 46 \<or> separator = 41
             then
               (let trailing = takeWhile is_space r in
                Some ((leading, number, separator, trailing),
                      length leading + length number + 1 + length trailing))
             else None))"

text \<open>
  \<open>(^|\\n)(\\d{1,3})([.\\)])(\\s*)\<close>: the first alternative of group 1 is tried first and
  holds at position 0 only (the pattern is compiled without \<open>MULTILINE\<close>); the second
  consumes a newline.
\<close>

definition numbered_point_pattern ::
  "unicode_db \<Rightarrow> codepoint option \<Rightarrow> ustr \<Rightarrow> ((ustr \<times> ustr \<times> codepoint \<times> ustr) \<times> nat) option" where
  "numbered_point_pattern U prev t =
     (case (if prev = None then marker_tail U [] t else None) of
        Some m \<Rightarrow> Some m
      | None \<Rightarrow>
          (case t of
             [] \<Rightarrow> None
           | c # r \<Rightarrow> if c = 10 then marker_tail U [10] r else None))"

text \<open>\<open>(\\w+)\\s*=\\s*(\\w+)\<close>\<close>

definition equation_pattern ::
  "unicode_db \<Rightarrow> codepoint option \<Rightarrow> ustr \<Rightarrow> ((ustr \<times> ustr) \<times> nat) option" where
  "equation_pattern U prev t =
     (let left = takeWhile (is_word U) t in
      if left = [] then None
      else
        (case dropWhile is_space (dropWhile (is_word U) t) of
           [] \<Rightarrow> None
         | e # r \<Rightarrow>
             if e = 61
             then
               (let r' = dropWhile is_space r; right = takeWhile (is_word U) r' in
                if right = [] then None
                else Some ((left, right), length t - length (dropWhile (is_word U) r')))
             else None))"

text \<open>\<open>(?<=\\s)=(?=\\s)\<close>\<close>

definition standalone_equals_pattern ::
  "codepoint option \<Rightarrow> ustr \<Rightarrow> (unit \<times> nat) option" where
  "standalone_equals_pattern prev t =
     (case prev of
        None \<Rightarrow> None
      | Some p \<Rightarrow>
          (case t of
             e # n # _ \<Rightarrow> if is_space p \<and> e = 61 \<and> is_space n then Some ((), 1) else None
           | _ \<Rightarrow> None))"

text \<open>\<open>(\\d+)\\s*\\+\\s*(\\d+)\<close>\<close>

definition plus_pattern ::
  "unicode_db \<Rightarrow> codepoint option \<Rightarrow> ustr \<Rightarrow> ((ustr \<times> ustr) \<times> nat) option" where
  "plus_pattern U prev t =
     (let left = takeWhile (is_digit U) t in
      if left = [] then None
      else
        (case dropWhile is_space (dropWhile (is_digit U) t) of
           [] \<Rightarrow> None
         | p # r \<Rightarrow>
             if p = 43
             then
               (let r' = dropWhile is_space r; right = takeWhile (is_digit U) r' in
                if right = [] then None
                else Some ((left, right), length t - length (dropWhile (is_digit U) r')))
             else None))"

text \<open>\<open>(\\d+)%\<close>\<close>

definition percent_pattern ::
  "unicode_db \<Rightarrow> codepoint option \<Rightarrow> ustr \<Rightarrow> (ustr \<times> nat) option" where
  "percent_pattern U prev t =
     (let digits = takeWhile (is_digit U) t in
      if digits = [] then None
      else
        (case dropWhile (is_digit U) t of
           [] \<Rightarrow> None
         | p # _ \<Rightarrow> if p = 37 then Some (digits, length digits + 1) else None))"

text \<open>
  \<open>S(\\d+(?:\\.\\d{2})?)\<close> for a currency symbol \<open>S\<close>: the digits, then a period and two
  digits when they follow.
\<close>

definition amount_pattern ::
  "unicode_db \<Rightarrow> codepoint \<Rightarrow> codepoint option \<Rightarrow> ustr \<Rightarrow> (ustr \<times> nat) option" where
  "amount_pattern U symbol prev t =
     (case t of
        [] \<Rightarrow> None
      | s # r \<Rightarrow>
          if s = symbol
          then
            (let digits = takeWhile (is_digit U) r in
             if digits = [] then None
             else
               (case dropWhile (is_digit U) r of
                  p # a # b # _ \<Rightarrow>
                    if p = 46 \<and> is_digit U a \<and> is_digit U b
                    then Some (digits @ [46, a, b], length digits + 4)
                    else Some (digits, length digits + 1)
                | _ \<Rightarrow> Some (digits, length digits + 1)))
          else None)"

text \<open>The bullet glyphs U+2022, U+25E6, U+25AA, U+25B8, U+25BA.\<close>

definition is_bullet :: "codepoint \<Rightarrow> bool" where
  "is_bullet c \<longleftrightarrow> c = 8226 \<or> c = 9702 \<or> c = 9642 \<or> c = 9656 \<or> c = 9658"

text \<open>\<open>\\s*[bullets]\\s*\<close> behind group 1.\<close>

definition bullet_tail :: "ustr \<Rightarrow> ustr \<Rightarrow> (ustr \<times> nat) option" where
  "bullet_tail leading t =
     (case dropWhile is_space t of
        [] \<Rightarrow> None
      | b # r \<Rightarrow>
          if is_bullet b
          then Some (leading, length leading + (length t - length (dropWhile is_space r)))
          else None)"

text \<open>\<open>(^|\\n)\\s*[bullets]\\s*\<close>\<close>

definition bullet_pattern :: "codepoint option \<Rightarrow> ustr \<Rightarrow> (ustr \<times> nat) option" where
  "bullet_pattern prev t =
     (case (if prev = None then bullet_tail [] t else None) of
        Some m \<Rightarrow> Some m
      | None \<Rightarrow>
          (case t of
             [] \<Rightarrow> None
           | c # r \<Rightarrow> if c = 10 then bullet_tail [10] r else None))"

text \<open>\<open>\\s+&\\s+\<close>\<close>

definition ampersand_pattern :: "codepoint option \<Rightarrow> ustr \<Rightarrow> (unit \<times> nat) option" where
  "ampersand_pattern prev t =
     (if takeWhile is_space t = [] then None
      else
        (case dropWhile is_space t of
           [] \<Rightarrow> None
         | a # r \<Rightarrow>
             if a = 38 \<and> takeWhile is_space r \<noteq> []
             then Some ((), length t - length (dropWhile is_space r))
             else None))"

text \<open>\<open>#(\\d+)\<close>\<close>

definition hash_pattern ::
  "unicode_db \<Rightarrow> codepoint option \<Rightarrow> ustr \<Rightarrow> (ustr \<times> nat) option" where
  "hash_pattern U prev t =
     (case t of
        [] \<Rightarrow> None
      | h # r \<Rightarrow>
          if h = 35 \<and> takeWhile (is_digit U) r \<noteq> []
          then Some (takeWhile (is_digit U) r, length (takeWhile (is_digit U) r) + 1)
          else None)"

text \<open>Two spaces and every space that follows them.\<close>

definition spaces_pattern :: "codepoint option \<Rightarrow> ustr \<Rightarrow> (unit \<times> nat) option" where
  "spaces_pattern prev t =
     (case t of
        a # b # r \<Rightarrow>
          if a = 32 \<and> b = 32
          then Some ((), length t - length (dropWhile (\<lambda>c. c = 32) r))
          else None
      | _ \<Rightarrow> None)"

section \<open>The phrase tables\<close>

type_synonym symbol_map = "string \<rightharpoonup> ustr"

definition dict_get :: "symbol_map \<Rightarrow> string \<Rightarrow> ustr \<Rightarrow> ustr" where
  "dict_get d k dflt = (case d k of None \<Rightarrow> dflt | Some v \<Rightarrow> v)"

definition SYMBOL_MAP_EN :: symbol_map where
  "SYMBOL_MAP_EN = map_of
    [(''equals'', u '' equals ''),
     (''plus'', u '' plus ''),
     (''minus'', u '' minus ''),
     (''times'', u '' times ''),
     (''divided_by'', u '' divided by ''),
     (''percent'', u '' percent''),
     (''less_than'', u '' less than ''),
     (''greater_than'', u '' greater than ''),
     (''less_or_equal'', u '' less than or equal to ''),
     (''greater_or_equal'', u '' greater than or equal to ''),
     (''not_equal'', u '' not equal to ''),
     (''arrow'', u '' arrow ''),
     (''dollars'', u '' dollars''),
     (''euros'', u '' euros''),
     (''pounds'', u '' pounds''),
     (''yen'', u '' yen''),
     (''rubles'', u '' rubles''),
     (''at'', u '' at ''),
     (''and'', u '' and ''),
     (''number'', u '' number ''),
     (''point'', u ''Point '')]"

text \<open>The Russian phrases, in code points (Cyrillic is U+0410..U+044F).\<close>

definition SYMBOL_MAP_RU :: symbol_map where
  "SYMBOL_MAP_RU = map_of
    [(''equals'', [32, 1088, 1072, 1074, 1085, 1086, 32]),
     (''plus'', [32, 1087, 1083, 1102, 1089, 32]),
     (''minus'', [32, 1084, 1080, 1085, 1091, 1089, 32]),
     (''times'', [32, 1091, 1084, 1085, 1086, 1078, 1080, 1090, 1100, 32, 1085, 1072, 32]),
     (''divided_by'', [32, 1076, 1077, 1083, 1080, 1090, 1100, 32, 1085, 1072, 32]),
     (''percent'', [32, 1087, 1088, 1086, 1094, 1077, 1085, 1090, 1086, 1074]),
     (''less_than'', [32, 1084, 1077, 1085, 1100, 1096, 1077, 32]),
     (''greater_than'', [32, 1073, 1086, 1083, 1100, 1096, 1077, 32]),
     (''less_or_equal'',
        [32, 1084, 1077, 1085, 1100, 1096, 1077, 32, 1080, 1083, 1080, 32,
         1088, 1072, 1074, 1085, 1086, 32]),
     (''greater_or_equal'',
        [32, 1073, 1086, 1083, 1100, 1096, 1077, 32, 1080, 1083, 1080, 32,
         1088, 1072, 1074, 1085, 1086, 32]),
     (''not_equal'', [32, 1085, 1077, 32, 1088, 1072, 1074, 1085, 1086, 32]),
     (''arrow'', [32, 1089, 1090, 1088, 1077, 1083, 1082, 1072, 32]),
     (''dollars'', [32, 1076, 1086, 1083, 1083, 1072, 1088, 1086, 1074]),
     (''euros'', [32, 1077, 1074, 1088, 1086]),
     (''pounds'', [32, 1092, 1091, 1085, 1090, 1086, 1074]),
     (''yen'', [32, 1080, 1077, 1085]),
     (''rubles'', [32, 1088, 1091, 1073, 1083, 1077, 1081]),
     (''at'', [32, 1089, 1086, 1073, 1072, 1082, 1072, 32]),
     (''and'', [32, 1080, 32]),
     (''number'', [32, 1085, 1086, 1084, 1077, 1088, 32]),
     (''point'', [1055, 1091, 1085, 1082, 1090, 32])]"

definition LANGUAGE_MAPS :: "ustr \<rightharpoonup> symbol_map" where
  "LANGUAGE_MAPS = map_of [(u ''ru'', SYMBOL_MAP_RU), (u ''en'', SYMBOL_MAP_EN)]"

section \<open>The converter\<close>

text \<open>
  The converter's only field is the table in use, which \<open>process\<close> sets before the
  passes read it. Of the processing context (declared in \<open>base.py\<close>) the module reads
  the language, an optional string.
\<close>

record symbol_converter =
  current_map :: symbol_map

record processing_context =
  language :: "ustr option"

definition init :: symbol_converter where
  "init = \<lparr>current_map = SYMBOL_MAP_EN\<rparr>"

text \<open>\<open>if language and language in self.LANGUAGE_MAPS\<close>: \<open>None\<close> and the empty string are false.\<close>

definition get_symbol_map :: "ustr option \<Rightarrow> symbol_map" where
  "get_symbol_map lang =
     (case lang of
        None \<Rightarrow> SYMBOL_MAP_EN
      | Some l \<Rightarrow>
          if l \<noteq> [] \<and> l \<in> dom LANGUAGE_MAPS then the (LANGUAGE_MAPS l) else SYMBOL_MAP_EN)"

definition replace_numbered_point :: "ustr \<Rightarrow> ustr \<times> ustr \<times> codepoint \<times> ustr \<Rightarrow> ustr" where
  "replace_numbered_point point_word m =
     (case m of (leading, number, separator, trailing) \<Rightarrow>
        if separator = 46 then leading @ point_word @ number @ [46] @ trailing
        else leading @ number @ [46] @ trailing)"

definition convert_numbered_lists :: "unicode_db \<Rightarrow> symbol_converter \<Rightarrow> ustr \<Rightarrow> ustr" where
  "convert_numbered_lists U self t =
     (let point_word = dict_get (current_map self) ''point'' (u ''Point '')
      in re_sub (numbered_point_pattern U) (replace_numbered_point point_word) t)"

definition convert_math_expressions :: "unicode_db \<Rightarrow> symbol_converter \<Rightarrow> ustr \<Rightarrow> ustr" where
  "convert_math_expressions U self t =
     (let equals_word = dict_get (current_map self) ''equals'' (u '' equals '');
          plus_word = dict_get (current_map self) ''plus'' (u '' plus '');
          percent_word = dict_get (current_map self) ''percent'' (u '' percent'');
          greater_or_equal =
            dict_get (current_map self) ''greater_or_equal'' (u '' greater than or equal to '');
          less_or_equal =
            dict_get (current_map self) ''less_or_equal'' (u '' less than or equal to '');
          not_equal = dict_get (current_map self) ''not_equal'' (u '' not equal to '');
          result = t;
          result = replace (u ''>='') greater_or_equal result;
          result = replace (u ''<='') less_or_equal result;
          result = replace (u ''!='') not_equal result;
          result = replace (u ''=='') equals_word result;
          result = re_sub (equation_pattern U) (\<lambda>(l, r). l @ equals_word @ r) result;
          result = re_sub standalone_equals_pattern (\<lambda>_. equals_word) result;
          result = re_sub (plus_pattern U) (\<lambda>(l, r). l @ plus_word @ r) result;
          result = re_sub (percent_pattern U) (\<lambda>d. d @ percent_word) result
      in result)"

definition convert_standalone_symbols :: "unicode_db \<Rightarrow> symbol_converter \<Rightarrow> ustr \<Rightarrow> ustr" where
  "convert_standalone_symbols U self t =
     (let dollars_word = dict_get (current_map self) ''dollars'' (u '' dollars'');
          euros_word = dict_get (current_map self) ''euros'' (u '' euros'');
          pounds_word = dict_get (current_map self) ''pounds'' (u '' pounds'');
          rubles_word = dict_get (current_map self) ''rubles'' (u '' rubles'');
          and_word = dict_get (current_map self) ''and'' (u '' and '');
          number_word = dict_get (current_map self) ''number'' (u '' number '');
          arrow_word = dict_get (current_map self) ''arrow'' (u '' arrow '');
          result = t;
          result = re_sub (amount_pattern U 36) (\<lambda>a. a @ dollars_word) result;
          result = re_sub (amount_pattern U 8364) (\<lambda>a. a @ euros_word) result;
          result = re_sub (amount_pattern U 163) (\<lambda>a. a @ pounds_word) result;
          result = re_sub (amount_pattern U 8381) (\<lambda>a. a @ rubles_word) result;
          result = re_sub bullet_pattern (\<lambda>leading. leading) result;
          result = re_sub ampersand_pattern (\<lambda>_. and_word) result;
          result = re_sub (hash_pattern U) (\<lambda>d. number_word @ d) result;
          result = replace [8594] arrow_word result;
          result = replace [8592] arrow_word result;
          result = replace (u ''->'') arrow_word result;
          result = replace (u ''<-'') arrow_word result
      in result)"

text \<open>
  \<open>process\<close> returns the converter, whose table it has set, and the text. The language
  detection (\<open>detect_primary_language\<close>, in a module outside these sources) is the
  parameter \<open>detect\<close>; it is called when the context gives no language or an empty one.
\<close>

definition process ::
  "unicode_db \<Rightarrow> (ustr \<Rightarrow> ustr) \<Rightarrow> symbol_converter \<Rightarrow> ustr \<Rightarrow> processing_context \<Rightarrow>
     symbol_converter \<times> ustr" where
  "process U detect self t context =
     (let lang = language context;
          lang = (if lang = None \<or> lang = Some [] then Some (detect t) else lang);
          self = self\<lparr>current_map := get_symbol_map lang\<rparr>;
          result = t;
          result = convert_numbered_lists U self result;
          result = convert_math_expressions U self result;
          result = convert_standalone_symbols U self result;
          result = re_sub spaces_pattern (\<lambda>_. [32]) result
      in (self, result))"

text \<open>
  The specification's \<open>transform(text, language_hint)\<close>: \<open>process\<close> of a fresh converter
  on a context that holds the hint.
\<close>

definition transform :: "unicode_db \<Rightarrow> (ustr \<Rightarrow> ustr) \<Rightarrow> ustr \<Rightarrow> ustr option \<Rightarrow> ustr" where
  "transform U detect t hint = snd (process U detect init t \<lparr>language = hint\<rparr>)"

section \<open>Stand-ins for closed examples\<close>

text \<open>
  A closed example needs a database and a detection function. \<open>cyrillic_db\<close> knows the
  Cyrillic letters (U+0400..U+0481, U+048A..U+052F) as alphanumeric and nothing else
  beyond ASCII; \<open>always code\<close> is a detection that answers \<open>code\<close> for every text.
\<close>

definition cyrillic_db :: unicode_db where
  "cyrillic_db c =
     (if (1024 \<le> c \<and> c \<le> 1153) \<or> (1162 \<le> c \<and> c \<le> 1327) then Alnum else Other)"

definition always :: "ustr \<Rightarrow> ustr \<Rightarrow> ustr" where
  "always code t = code"

section \<open>Runs of a class\<close>

text \<open>
  \<open>stops P t\<close>: the text \<open>t\<close> is empty or starts outside the class \<open>P\<close>, so a run of
  \<open>P\<close> that stands before \<open>t\<close> ends there. \<open>decimals U t\<close>: \<open>t\<close> starts with a period and
  two digits.
\<close>

definition stops :: "(codepoint \<Rightarrow> bool) \<Rightarrow> ustr \<Rightarrow> bool" where
  "stops P t = (case t of [] \<Rightarrow> True | c # _ \<Rightarrow> \<not> P c)"


section \<open>The two halves of the math pass\<close>

text \<open>
  \<open>convert_math_expressions\<close> cut in two, to speak of the text between its steps:
  \<open>comparison_phrases\<close> is its first four statements (the operators of two characters),
  \<open>equals_plus_percent\<close> the four that follow. A phrase is plain when it is not empty
  and holds none of \<open>!\<close>, \<open><\<close>, \<open>=\<close>, \<open>>\<close>.
\<close>

definition comparison_phrases :: "symbol_converter \<Rightarrow> ustr \<Rightarrow> ustr" where
  "comparison_phrases self t =
     (let equals_word = dict_get (current_map self) ''equals'' (u '' equals '');
          greater_or_equal =
            dict_get (current_map self) ''greater_or_equal'' (u '' greater than or equal to '');
          less_or_equal =
            dict_get (current_map self) ''less_or_equal'' (u '' less than or equal to '');
          not_equal = dict_get (current_map self) ''not_equal'' (u '' not equal to '');
          result = t;
          result = replace (u ''>='') greater_or_equal result;
          result = replace (u ''<='') less_or_equal result;
          result = replace (u ''!='') not_equal result;
          result = replace (u ''=='') equals_word result
      in result)"

definition equals_plus_percent :: "unicode_db \<Rightarrow> symbol_converter \<Rightarrow> ustr \<Rightarrow> ustr" where
  "equals_plus_percent U self t =
     (let equals_word = dict_get (current_map self) ''equals'' (u '' equals '');
          plus_word = dict_get (current_map self) ''plus'' (u '' plus '');
          percent_word = dict_get (current_map self) ''percent'' (u '' percent'');
          result = t;
          result = re_sub (equation_pattern U) (\<lambda>(l, r). l @ equals_word @ r) result;
          result = re_sub standalone_equals_pattern (\<lambda>_. equals_word) result;
          result = re_sub (plus_pattern U) (\<lambda>(l, r). l @ plus_word @ r) result;
          result = re_sub (percent_pattern U) (\<lambda>d. d @ percent_word) result
      in result)"

definition plain_phrase :: "ustr \<Rightarrow> bool" where
  "plain_phrase w \<longleftrightarrow> w \<noteq> [] \<and> 33 \<notin> set w \<and> 60 \<notin> set w \<and> 61 \<notin> set w \<and> 62 \<notin> set w"

section \<open>The characters no rule touches\<close>

text \<open>The asterisk, the slash, the at sign and the yen sign (U+00A5).\<close>

definition kept :: "codepoint \<Rightarrow> bool" where
  "kept c \<longleftrightarrow> c = 42 \<or> c = 47 \<or> c = 64 \<or> c = 165"

section \<open>The specification's language resolution\<close>

text \<open>
  \<open>resolve_language\<close> as section 4.1 of the specification words it, for comparison with
  what \<open>process\<close> does: the hint when it is non-empty and in the registry, otherwise the
  detection's answer, with \<open>en\<close> for an answer the registry does not hold.
\<close>

definition spec_resolve_language :: "(ustr \<Rightarrow> ustr) \<Rightarrow> ustr option \<Rightarrow> ustr \<Rightarrow> ustr" where
  "spec_resolve_language detect hint t =
     (let oracle = (if detect t \<in> dom LANGUAGE_MAPS then detect t else u ''en'') in
      case hint of
        None \<Rightarrow> oracle
      | Some h \<Rightarrow> if h \<noteq> [] \<and> h \<in> dom LANGUAGE_MAPS then h else oracle)"

section \<open>Evaluation\<close>

lemmas class_defs = is_space_def is_digit_def is_word_def is_bullet_def

lemmas pattern_defs =
  literal_def marker_tail_def numbered_point_pattern_def equation_pattern_def
  standalone_equals_pattern_def plus_pattern_def percent_pattern_def amount_pattern_def
  bullet_tail_def bullet_pattern_def ampersand_pattern_def hash_pattern_def
  spaces_pattern_def

lemmas table_defs =
  dict_get_def SYMBOL_MAP_EN_def SYMBOL_MAP_RU_def LANGUAGE_MAPS_def get_symbol_map_def

lemmas pass_defs =
  re_sub_def replace_def replace_numbered_point_def convert_numbered_lists_def
  convert_math_expressions_def convert_standalone_symbols_def process_def transform_def
  init_def

lemmas run_defs = u_def class_defs pattern_defs table_defs pass_defs

section \<open>Steps of the scan\<close>

lemma scan_match:
  "pattern prev t = Some (g, n) \<Longrightarrow> 0 < n \<Longrightarrow> n \<le> length t \<Longrightarrow>
   scan pattern repl prev t = repl g @ scan pattern repl (Some (t ! (n - 1))) (drop n t)"
  by (cases t) simp_all

lemma scan_skip:
  "pattern prev (c # cs) = None \<Longrightarrow>
   scan pattern repl prev (c # cs) = c # scan pattern repl (Some c) cs"
  by simp

lemma takeWhile_run:
  "list_all P xs \<Longrightarrow> stops P ys \<Longrightarrow> takeWhile P (xs @ ys) = xs"
  by (induction xs) (auto simp: stops_def split: list.splits)

lemma dropWhile_run:
  "list_all P xs \<Longrightarrow> stops P ys \<Longrightarrow> dropWhile P (xs @ ys) = ys"
  by (induction xs) (auto simp: stops_def split: list.splits)


lemma space_not_digit: "is_space c \<Longrightarrow> \<not> is_digit U c"
  by (auto simp: is_digit_def is_space_def)

lemma digit_is_word: "is_digit U c \<Longrightarrow> is_word U c"
  by (auto simp: is_word_def is_digit_def split: if_splits)

lemma nth_before_append: "xs \<noteq> [] \<Longrightarrow> (xs @ ys) ! (length xs - 1) = last xs"
  by (simp add: nth_append last_conv_nth)

lemma hash_step:
  assumes "ds \<noteq> []" "list_all (is_digit U) ds" "stops (is_digit U) rest"
  shows "scan (hash_pattern U) (\<lambda>d. w @ d) prev (35 # ds @ rest)
       = w @ ds @ scan (hash_pattern U) (\<lambda>d. w @ d) (Some (last ds)) rest"
proof -
  have tw: "takeWhile (is_digit U) (ds @ rest) = ds"
    using assms by (simp add: takeWhile_run)
  have m: "hash_pattern U prev (35 # ds @ rest) = Some (ds, length ds + 1)"
    using assms(1) by (simp add: hash_pattern_def tw)
  show ?thesis
    using m assms(1)
      scan_match [of "hash_pattern U" prev "35 # ds @ rest" ds "length ds + 1" "\<lambda>d. w @ d"]
    by (simp add: nth_append last_conv_nth)
qed









section \<open>Re-running the transform (C1)\<close>




section \<open>Markers that follow a marker (C3)\<close>

text \<open>
  C3: the two markers of \<open>1.\<newline>2. b\<close> both stand at the start of a line. Group 4 of the
  pattern takes the newline behind the first marker as trailing white space, so the scan
  resumes at \<open>2\<close>, where neither \<open>^\<close> nor a newline is left to match: the second marker
  gets no point phrase.
\<close>

theorem second_marker_kept:
  "transform U d (u ''1.'' @ [10] @ u ''2. b'') (Some (u ''en''))
     = u ''Point 1.'' @ [10] @ u ''2. b''"
  by (simp add: run_defs)

section \<open>The number sign (C4)\<close>

text \<open>
  C4, as the specification states it, fails: the English number phrase starts with a
  space, the last step replaces runs of two or more spaces only, and nothing strips the
  text, so the output starts with a space.
\<close>

theorem hash_number_counterexample:
  "transform cyrillic_db (always (u ''en'')) (u ''#42 issue'') (Some (u ''en''))
   \<noteq> u ''number 42 issue''"
  by (simp add: run_defs)

text \<open>
  C4, amended: \<open>transform("#42 issue", "en")\<close> is \<open>" number 42 issue"\<close>, with one leading
  space. In the scan for \<open>#(\\d+)\<close>, a number sign followed by a run of digits \<open>ds\<close> (as
  long as the digits go) is replaced by the number phrase and \<open>ds\<close>, and the scan goes on
  behind the digits.
\<close>

theorem hash_number:
  "transform U d (u ''#42 issue'') (Some (u ''en'')) = u '' number 42 issue''
   \<and> (ds \<noteq> [] \<and> list_all (is_digit U) ds \<and> stops (is_digit U) rest \<longrightarrow>
        scan (hash_pattern U) (\<lambda>d. w @ d) prev (35 # ds @ rest)
          = w @ ds @ scan (hash_pattern U) (\<lambda>d. w @ d) (Some (last ds)) rest)"
proof -
  have "transform U d (u ''#42 issue'') (Some (u ''en'')) = u '' number 42 issue''"
    by (simp add: run_defs)
  then show ?thesis
    using hash_step by blast
qed

theorem hash_number_witness:
  "u ''42'' \<noteq> [] \<and> list_all (is_digit cyrillic_db) (u ''42'')
   \<and> stops (is_digit cyrillic_db) (u '' issue'')
   \<and> scan (hash_pattern cyrillic_db) (\<lambda>d. u '' number '' @ d) None (35 # u ''42'' @ u '' issue'')
       = u '' number '' @ u ''42'' @
         scan (hash_pattern cyrillic_db) (\<lambda>d. u '' number '' @ d) (Some (last (u ''42'')))
           (u '' issue'')"
  using hash_number [of cyrillic_db "always (u ''en'')" "u ''42''" "u '' issue''" "u '' number ''" None]
  by (simp add: u_def is_digit_def stops_def)

section \<open>Bullets that follow a bullet (C10)\<close>

text \<open>
  C10: in \<open>\<bullet>\<newline>\<bullet> b\<close> (code points 8226, 10, 8226, 32, 98) the second bullet stands right
  behind a newline. The white space behind the first bullet, which the pattern consumes,
  includes that newline, so the second bullet is not at a position the pattern can
  match and stays.
\<close>

theorem second_bullet_kept:
  "transform U d [8226, 10, 8226, 32, 98] (Some (u ''en'')) = [8226, 32, 98]"
  by (simp add: run_defs)

section \<open>Language resolution (C2)\<close>

text \<open>
  C2, as the specification states it, fails for a hint that is non-empty and not in the
  registry: \<open>process\<close> asks the detection only when the context gives no language or an
  empty one, so the unknown hint \<open>fr\<close> selects the English table although the detection
  answers \<open>ru\<close>.
\<close>

theorem unknown_hint_counterexample:
  "transform cyrillic_db (always (u ''ru'')) (u ''50 >= 40'') (Some (u ''fr''))
   \<noteq> transform cyrillic_db (always (u ''ru'')) (u ''50 >= 40'')
        (Some (spec_resolve_language (always (u ''ru'')) (Some (u ''fr'')) (u ''50 >= 40'')))"
proof -
  have code: "transform cyrillic_db (always (u ''ru'')) (u ''50 >= 40'') (Some (u ''fr''))
      = u ''50 greater than or equal to 40''"
    by (simp add: run_defs)
  have spec: "spec_resolve_language (always (u ''ru'')) (Some (u ''fr'')) (u ''50 >= 40'')
      = u ''ru''"
    by (simp add: spec_resolve_language_def always_def LANGUAGE_MAPS_def u_def)
  have ru: "transform cyrillic_db (always (u ''ru'')) (u ''50 >= 40'') (Some (u ''ru''))
      = u ''50'' @ [32, 1073, 1086, 1083, 1100, 1096, 1077, 32, 1080, 1083, 1080, 32,
          1088, 1072, 1074, 1085, 1086, 32] @ u ''40''"
    by (simp add: run_defs cyrillic_db_def)
  show ?thesis
    unfolding code spec ru by (simp add: u_def)
qed

text \<open>
  C2, amended: the language code is the hint whenever the hint is non-empty (whether the
  registry holds it or not), and the detection's answer for the text otherwise; the
  table that \<open>process\<close> selects is the registry's table for that code, and the English
  table when the registry has none.
\<close>

theorem language_resolution:
  "current_map (fst (process U detect self t \<lparr>language = hint\<rparr>)) =
     (let code = (if hint = None \<or> hint = Some [] then detect t else the hint)
      in case LANGUAGE_MAPS code of None \<Rightarrow> SYMBOL_MAP_EN | Some m \<Rightarrow> m)"
  by (auto simp: process_def Let_def get_symbol_map_def LANGUAGE_MAPS_def u_def domIff
      split: option.splits)

theorem language_resolution_witness:
  "current_map (fst (process cyrillic_db (always (u ''ru'')) init (u ''50 >= 40'')
      \<lparr>language = Some (u ''fr'')\<rparr>)) = SYMBOL_MAP_EN"
  using language_resolution
    [of cyrillic_db "always (u ''ru'')" init "u ''50 >= 40''" "Some (u ''fr'')"]
  by (simp add: LANGUAGE_MAPS_def u_def)

section \<open>Single spacing of the output (C8)\<close>

lemma drop_run: "drop (length r - length (dropWhile P r)) r = dropWhile P r"
proof -
  have "length (takeWhile P r) + length (dropWhile P r) = length r"
    by (metis length_append takeWhile_dropWhile_id)
  then have "length r - length (dropWhile P r) = length (takeWhile P r)"
    by arith
  then show ?thesis
    by (simp add: dropWhile_eq_drop [symmetric])
qed

lemma scan_spaces_head:
  "scan spaces_pattern (\<lambda>_. [32]) prev t = 32 # r \<Longrightarrow> \<exists>r'. t = 32 # r'"
  by (cases t) (auto simp: spaces_pattern_def split: list.splits if_splits)

lemma scan_spaces_no_run:
  "\<not> sublist [32, 32] (scan spaces_pattern (\<lambda>_. [32]) prev t)"
proof (induction "length t" arbitrary: t prev rule: less_induct)
  case less
  show ?case
  proof (cases t)
    case Nil
    then show ?thesis by simp
  next
    case (Cons c cs)
    show ?thesis
    proof (cases "spaces_pattern prev t")
      case None
      then have eq: "scan spaces_pattern (\<lambda>_. [32]) prev t =
          c # scan spaces_pattern (\<lambda>_. [32]) (Some c) cs"
        using Cons by simp
      have ih: "\<not> sublist [32, 32] (scan spaces_pattern (\<lambda>_. [32]) (Some c) cs)"
        using less Cons by simp
      have "\<not> prefix [32, 32] (c # scan spaces_pattern (\<lambda>_. [32]) (Some c) cs)"
      proof
        assume p: "prefix [32, 32] (c # scan spaces_pattern (\<lambda>_. [32]) (Some c) cs)"
        then obtain r where "c = 32"
          and "scan spaces_pattern (\<lambda>_. [32]) (Some c) cs = 32 # r"
          by (cases "scan spaces_pattern (\<lambda>_. [32]) (Some c) cs") auto
        then obtain r' where "cs = 32 # r'" using scan_spaces_head by blast
        with \<open>c = 32\<close> Cons None show False by (simp add: spaces_pattern_def)
      qed
      with ih eq show ?thesis by (simp add: sublist_Cons_right)
    next
      case (Some m)
      then obtain r where t: "t = 32 # 32 # r"
        and m: "m = ((), length t - length (dropWhile (\<lambda>c. c = 32) r))"
        by (auto simp: spaces_pattern_def split: list.splits if_splits)
      let ?rest = "dropWhile (\<lambda>c. c = 32) r"
      have len: "length ?rest \<le> length r" by (rule length_dropWhile_le)
      obtain p where eq: "scan spaces_pattern (\<lambda>_. [32]) prev t =
          32 # scan spaces_pattern (\<lambda>_. [32]) p ?rest"
        using Some m t len by (simp add: drop_run Suc_diff_le)
      have ih: "\<not> sublist [32, 32] (scan spaces_pattern (\<lambda>_. [32]) p ?rest)"
        using less t len by simp
      have "\<not> prefix [32, 32] (32 # scan spaces_pattern (\<lambda>_. [32]) p ?rest)"
      proof
        assume "prefix [32, 32] (32 # scan spaces_pattern (\<lambda>_. [32]) p ?rest)"
        then obtain q where "scan spaces_pattern (\<lambda>_. [32]) p ?rest = 32 # q"
          by (cases "scan spaces_pattern (\<lambda>_. [32]) p ?rest") auto
        then obtain r' where "?rest = 32 # r'" using scan_spaces_head by blast
        then show False by (simp add: dropWhile_eq_Cons_conv)
      qed
      with ih eq show ?thesis by (simp add: sublist_Cons_right)
    qed
  qed
qed

text \<open>
  C8: whatever the text, the hint, the detection and the character database, the output
  of \<open>transform\<close> holds no two consecutive spaces (code point 32).
\<close>

theorem no_double_space: "\<not> sublist [32, 32] (transform U detect t hint)"
  by (simp add: transform_def process_def Let_def re_sub_def scan_spaces_no_run)

theorem no_double_space_witness:
  "\<not> sublist [32, 32]
     (transform cyrillic_db (always (u ''en'')) (u ''a   b  c d    '') (Some (u ''en'')))"
  using no_double_space
    [of cyrillic_db "always (u ''en'')" "u ''a   b  c d    ''" "Some (u ''en'')"]
  by simp

section \<open>Equations (C6)\<close>




section \<open>Currency amounts (C7)\<close>



section \<open>Comparison operators (C5)\<close>

lemma math_split:
  "convert_math_expressions U self t = equals_plus_percent U self (comparison_phrases self t)"
  by (simp add: convert_math_expressions_def equals_plus_percent_def comparison_phrases_def Let_def)

lemma sublist_pair_append:
  "c \<notin> set xs \<Longrightarrow> sublist [c, d] (xs @ ys) \<Longrightarrow> sublist [c, d] ys"
  by (induction xs) (auto simp: sublist_Cons_right)

lemma sublist_pair_Cons:
  "sublist [c, d] (x # xs) \<longleftrightarrow> (x = c \<and> (\<exists>r. xs = d # r)) \<or> sublist [c, d] xs"
  by (cases xs) (auto simp: sublist_Cons_right)

lemma literal_pair:
  "literal [a, b] prev t = (case t of x # y # _ \<Rightarrow> if x = a \<and> y = b then Some ((), 2) else None | _ \<Rightarrow> None)"
  by (auto simp: literal_def split: list.splits)

lemma replace_head:
  assumes "new \<noteq> []" "hd new \<noteq> x"
    and "scan (literal [a, b]) (\<lambda>_. new) prev t = x # r"
  shows "\<exists>r'. t = x # r'"
proof (cases t)
  case Nil
  with assms(3) show ?thesis by simp
next
  case (Cons c cs)
  show ?thesis
  proof (cases "literal [a, b] prev t")
    case None
    with Cons assms(3) show ?thesis by simp
  next
    case (Some m)
    then have "scan (literal [a, b]) (\<lambda>_. new) prev t =
        new @ scan (literal [a, b]) (\<lambda>_. new) (Some (t ! 1)) (drop 2 t)"
      using Cons by (auto simp: literal_pair split: list.splits if_splits)
    with assms show ?thesis by (cases new) auto
  qed
qed

lemma replace_pair_free:
  assumes new: "new \<noteq> []" "c \<notin> set new" "d \<notin> set new"
    and t: "(c = a \<and> d = b) \<or> \<not> sublist [c, d] t"
  shows "\<not> sublist [c, d] (scan (literal [a, b]) (\<lambda>_. new) prev t)"
  using t
proof (induction "length t" arbitrary: t prev rule: less_induct)
  case less
  have hd: "hd new \<noteq> d" using new by (cases new) auto
  show ?case
  proof (cases t)
    case Nil
    then show ?thesis by simp
  next
    case (Cons x xs)
    show ?thesis
    proof (cases "literal [a, b] prev t")
      case None
      then have eq: "scan (literal [a, b]) (\<lambda>_. new) prev t =
          x # scan (literal [a, b]) (\<lambda>_. new) (Some x) xs"
        using Cons by simp
      have xs: "(c = a \<and> d = b) \<or> \<not> sublist [c, d] xs"
        using less.prems Cons by (auto simp: sublist_pair_Cons)
      have ih: "\<not> sublist [c, d] (scan (literal [a, b]) (\<lambda>_. new) (Some x) xs)"
        using less.hyps [of xs] xs Cons by simp
      have "\<not> (x = c \<and> (\<exists>r. scan (literal [a, b]) (\<lambda>_. new) (Some x) xs = d # r))"
      proof
        assume h: "x = c \<and> (\<exists>r. scan (literal [a, b]) (\<lambda>_. new) (Some x) xs = d # r)"
        then obtain r' where r': "xs = d # r'"
          using replace_head [OF new(1) hd] by blast
        with h Cons have "t = c # d # r'" by simp
        with None less.prems show False
          by (auto simp: literal_pair sublist_pair_Cons)
      qed
      with ih eq show ?thesis by (simp add: sublist_pair_Cons)
    next
      case (Some m)
      then obtain r where tr: "t = a # b # r"
        by (auto simp: literal_pair split: list.splits if_splits)
      then have eq: "scan (literal [a, b]) (\<lambda>_. new) prev t =
          new @ scan (literal [a, b]) (\<lambda>_. new) (Some b) r"
        by (simp add: literal_pair)
      have r: "(c = a \<and> d = b) \<or> \<not> sublist [c, d] r"
        using less.prems tr by (auto simp: sublist_pair_Cons)
      have ih: "\<not> sublist [c, d] (scan (literal [a, b]) (\<lambda>_. new) (Some b) r)"
        using less.hyps [of r] r tr by simp
      show ?thesis
        unfolding eq using ih sublist_pair_append [OF new(2)] by blast
    qed
  qed
qed

lemma replace_kills:
  "plain_phrase new \<Longrightarrow> c \<in> {33, 60, 61, 62} \<Longrightarrow> d \<in> {33, 60, 61, 62} \<Longrightarrow>
   (c = a \<and> d = b) \<or> \<not> sublist [c, d] t \<Longrightarrow> \<not> sublist [c, d] (replace [a, b] new t)"
  unfolding replace_def re_sub_def
  by (rule replace_pair_free) (auto simp: plain_phrase_def)

lemma comparison_chain:
  assumes "plain_phrase ge" "plain_phrase le" "plain_phrase ne" "plain_phrase eq"
  shows "\<not> sublist [62, 61]
           (replace [61, 61] eq (replace [33, 61] ne (replace [60, 61] le (replace [62, 61] ge t))))
       \<and> \<not> sublist [60, 61]
           (replace [61, 61] eq (replace [33, 61] ne (replace [60, 61] le (replace [62, 61] ge t))))
       \<and> \<not> sublist [33, 61]
           (replace [61, 61] eq (replace [33, 61] ne (replace [60, 61] le (replace [62, 61] ge t))))
       \<and> \<not> sublist [61, 61]
           (replace [61, 61] eq (replace [33, 61] ne (replace [60, 61] le (replace [62, 61] ge t))))"
  using assms by (simp add: replace_kills)

lemma scan_no_match:
  assumes "\<And>prev t. x \<notin> set t \<Longrightarrow> pattern prev t = None"
  shows "x \<notin> set t \<Longrightarrow> scan pattern repl prev t = t"
proof (induction t arbitrary: prev)
  case Nil
  then show ?case by simp
next
  case (Cons c cs)
  then have "pattern prev (c # cs) = None" by (intro assms)
  with Cons show ?case by simp
qed

lemma equation_needs_equals: "61 \<notin> set t \<Longrightarrow> equation_pattern U prev t = None"
proof -
  assume a: "61 \<notin> set t"
  have "set (dropWhile is_space (dropWhile (is_word U) t)) \<subseteq> set t"
    by (meson set_dropWhileD subsetI)
  with a show ?thesis
    by (auto simp: equation_pattern_def Let_def split: list.splits)
qed

lemma standalone_needs_equals: "61 \<notin> set t \<Longrightarrow> standalone_equals_pattern prev t = None"
  by (auto simp: standalone_equals_pattern_def split: option.splits list.splits)

lemma plus_needs_plus: "43 \<notin> set t \<Longrightarrow> plus_pattern U prev t = None"
proof -
  assume a: "43 \<notin> set t"
  have "set (dropWhile is_space (dropWhile (is_digit U) t)) \<subseteq> set t"
    by (meson set_dropWhileD subsetI)
  with a show ?thesis
    by (auto simp: plus_pattern_def Let_def split: list.splits)
qed

lemma percent_needs_percent: "37 \<notin> set t \<Longrightarrow> percent_pattern U prev t = None"
proof -
  assume a: "37 \<notin> set t"
  have "set (dropWhile (is_digit U) t) \<subseteq> set t"
    by (meson set_dropWhileD subsetI)
  with a show ?thesis
    by (auto simp: percent_pattern_def Let_def split: list.splits)
qed

lemma equals_plus_percent_id:
  "61 \<notin> set t \<Longrightarrow> 43 \<notin> set t \<Longrightarrow> 37 \<notin> set t \<Longrightarrow> equals_plus_percent U self t = t"
  by (simp add: equals_plus_percent_def Let_def re_sub_def
      scan_no_match [of 61, OF equation_needs_equals]
      scan_no_match [of 61, OF standalone_needs_equals]
      scan_no_match [of 43, OF plus_needs_plus]
      scan_no_match [of 37, OF percent_needs_percent])

lemma ru_table: "get_symbol_map (Some (u ''ru'')) = SYMBOL_MAP_RU"
  by (simp add: get_symbol_map_def LANGUAGE_MAPS_def u_def)

lemma ru_example:
  "transform U d (u ''50 >= 40'') (Some (u ''ru''))
     = u ''50'' @ [32, 1073, 1086, 1083, 1100, 1096, 1077, 32, 1080, 1083, 1080, 32,
         1088, 1072, 1074, 1085, 1086, 32] @ u ''40''"
proof -
  let ?self = "\<lparr>current_map = SYMBOL_MAP_RU\<rparr>"
  let ?t1 = "[53, 48, 32, 32, 1073, 1086, 1083, 1100, 1096, 1077, 32, 1080, 1083, 1080, 32,
         1088, 1072, 1074, 1085, 1086, 32, 32, 52, 48] :: ustr"
  have l: "convert_numbered_lists U ?self (u ''50 >= 40'') = u ''50 >= 40''"
    by (simp add: run_defs)
  have c: "comparison_phrases ?self (u ''50 >= 40'') = ?t1"
    by (simp add: comparison_phrases_def run_defs)
  have e: "equals_plus_percent U ?self ?t1 = ?t1"
    by (rule equals_plus_percent_id) simp_all
  have s: "convert_standalone_symbols U ?self ?t1 = ?t1"
    by (simp add: run_defs)
  have sp: "re_sub spaces_pattern (\<lambda>_. [32]) ?t1
      = u ''50'' @ [32, 1073, 1086, 1083, 1100, 1096, 1077, 32, 1080, 1083, 1080, 32,
         1088, 1072, 1074, 1085, 1086, 32] @ u ''40''"
    by (simp add: run_defs)
  have ne: "u ''ru'' \<noteq> []"
    by (simp add: u_def)
  show ?thesis
    by (simp add: transform_def process_def Let_def init_def ne ru_table l math_split c e s sp)
qed

lemma table_phrases_plain:
  assumes "current_map self = SYMBOL_MAP_EN \<or> current_map self = SYMBOL_MAP_RU"
  shows "plain_phrase (dict_get (current_map self) ''greater_or_equal'' (u '' greater than or equal to ''))"
    and "plain_phrase (dict_get (current_map self) ''less_or_equal'' (u '' less than or equal to ''))"
    and "plain_phrase (dict_get (current_map self) ''not_equal'' (u '' not equal to ''))"
    and "plain_phrase (dict_get (current_map self) ''equals'' (u '' equals ''))"
  using assms
  by (auto simp: plain_phrase_def dict_get_def SYMBOL_MAP_EN_def SYMBOL_MAP_RU_def u_def)

lemma comparison_phrases_free:
  assumes "current_map self = SYMBOL_MAP_EN \<or> current_map self = SYMBOL_MAP_RU"
  shows "\<not> sublist (u ''>='') (comparison_phrases self t)
       \<and> \<not> sublist (u ''<='') (comparison_phrases self t)
       \<and> \<not> sublist (u ''!='') (comparison_phrases self t)
       \<and> \<not> sublist (u ''=='') (comparison_phrases self t)"
proof -
  have ops: "u ''>='' = [62, 61]" "u ''<='' = [60, 61]" "u ''!='' = [33, 61]" "u ''=='' = [61, 61]"
    by (simp_all add: u_def)
  show ?thesis
    unfolding comparison_phrases_def Let_def ops
    by (rule comparison_chain) (rule table_phrases_plain [OF assms])+
qed

text \<open>
  C5: the math pass is its last four steps applied to the text its first four steps
  leave; with the English or the Russian table that text holds none of \<open>>=\<close>, \<open><=\<close>,
  \<open>!=\<close>, \<open>==\<close> any more, whatever the input, so the rules for a single \<open>=\<close> never see
  one of these operators. \<open>transform("50 >= 40", "ru")\<close> is \<open>50\<close>, the Russian phrase for
  greater-or-equal between single spaces, \<open>40\<close>, for every character database.
\<close>

theorem comparison_operators_first:
  "convert_math_expressions U self t = equals_plus_percent U self (comparison_phrases self t)
   \<and> (current_map self = SYMBOL_MAP_EN \<or> current_map self = SYMBOL_MAP_RU \<longrightarrow>
        \<not> sublist (u ''>='') (comparison_phrases self t)
        \<and> \<not> sublist (u ''<='') (comparison_phrases self t)
        \<and> \<not> sublist (u ''!='') (comparison_phrases self t)
        \<and> \<not> sublist (u ''=='') (comparison_phrases self t))
   \<and> transform U d (u ''50 >= 40'') (Some (u ''ru''))
       = u ''50'' @ [32, 1073, 1086, 1083, 1100, 1096, 1077, 32, 1080, 1083, 1080, 32,
           1088, 1072, 1074, 1085, 1086, 32] @ u ''40''"
  by (simp add: math_split comparison_phrases_free ru_example)

theorem comparison_operators_first_witness:
  "\<not> sublist (u ''>='') (comparison_phrases \<lparr>current_map = SYMBOL_MAP_RU\<rparr> (u ''50 >= 40''))
   \<and> \<not> sublist (u ''<='') (comparison_phrases \<lparr>current_map = SYMBOL_MAP_RU\<rparr> (u ''50 >= 40''))
   \<and> \<not> sublist (u ''!='') (comparison_phrases \<lparr>current_map = SYMBOL_MAP_RU\<rparr> (u ''50 >= 40''))
   \<and> \<not> sublist (u ''=='') (comparison_phrases \<lparr>current_map = SYMBOL_MAP_RU\<rparr> (u ''50 >= 40''))
   \<and> transform cyrillic_db (always (u ''en'')) (u ''50 >= 40'') (Some (u ''ru''))
       = u ''50'' @ [32, 1073, 1086, 1083, 1100, 1096, 1077, 32, 1080, 1083, 1080, 32,
           1088, 1072, 1074, 1085, 1086, 32] @ u ''40''"
  using comparison_operators_first
    [of cyrillic_db "\<lparr>current_map = SYMBOL_MAP_RU\<rparr>" "u ''50 >= 40''" "always (u ''en'')"]
  by simp

section \<open>Characters and phrases the passes leave alone (C9)\<close>

lemma scan_filter:
  assumes "\<And>prev t g n. pattern prev t = Some (g, n) \<Longrightarrow> 0 < n \<Longrightarrow> n \<le> length t \<Longrightarrow>
             filter P (repl g) = filter P (take n t)"
  shows "filter P (scan pattern repl prev t) = filter P t"
proof (induction "length t" arbitrary: t prev rule: less_induct)
  case less
  show ?case
  proof (cases t)
    case Nil
    then show ?thesis by simp
  next
    case (Cons c cs)
    show ?thesis
    proof (cases "pattern prev t")
      case None
      with Cons less.hyps [of cs] show ?thesis by simp
    next
      case (Some m)
      obtain g n where m: "m = (g, n)" by (cases m)
      show ?thesis
      proof (cases "0 < n \<and> n \<le> length t")
        case True
        then have eq: "scan pattern repl prev t
            = repl g @ scan pattern repl (Some (t ! (n - 1))) (drop n t)"
          using Some m Cons by simp
        have "length (drop n t) < length t" using True Cons by simp
        then have ih: "filter P (scan pattern repl (Some (t ! (n - 1))) (drop n t))
            = filter P (drop n t)"
          by (rule less.hyps)
        have "filter P (repl g) = filter P (take n t)"
          using assms Some m True by blast
        with eq ih have "filter P (scan pattern repl prev t)
            = filter P (take n t) @ filter P (drop n t)"
          by simp
        also have "\<dots> = filter P (take n t @ drop n t)" by (simp only: filter_append)
        also have "\<dots> = filter P t" by (simp only: append_take_drop_id)
        finally show ?thesis .
      next
        case False
        then have "scan pattern repl prev t = c # scan pattern repl (Some c) cs"
          using Some m Cons by auto
        with Cons less.hyps [of cs] show ?thesis by simp
      qed
    qed
  qed
qed

lemma kept_not_space: "kept c \<Longrightarrow> \<not> is_space c"
  by (auto simp: kept_def is_space_def)

lemma filter_kept_spaces: "filter kept (takeWhile is_space xs) = []"
  by (induction xs) (auto simp: kept_not_space)

lemma take_upto_rest:
  "t = pre @ r \<Longrightarrow> take (length t - length (dropWhile P r)) t = pre @ takeWhile P r"
proof -
  assume t: "t = pre @ r"
  have "t = (pre @ takeWhile P r) @ dropWhile P r" using t by simp
  moreover have "length t - length (dropWhile P r) = length (pre @ takeWhile P r)"
    using calculation by (metis add_diff_cancel_right' length_append)
  ultimately show ?thesis by (metis append_eq_conv_conj)
qed

lemma literal_keep:
  assumes "filter kept old = []" "filter kept new = []"
  shows "filter kept (replace old new t) = filter kept t"
  unfolding replace_def re_sub_def
proof (rule scan_filter)
  fix prev t g n
  assume "literal old prev t = Some (g, n)"
  then have "prefix old t" "n = length old"
    by (auto simp: literal_def split: if_splits)
  then have "take n t = old" by (auto simp: prefix_def)
  with assms show "filter kept new = filter kept (take n t)" by simp
qed

lemma marker_tail_shape:
  assumes "marker_tail U leading t = Some ((l, number, sep, trailing), n)"
  shows "\<exists>k x. l = leading \<and> n = length leading + k \<and> take k t = number @ sep # trailing
       \<and> (sep = 46 \<or> sep = 41) \<and> trailing = takeWhile is_space x"
proof -
  let ?number = "take 3 (takeWhile (is_digit U) t)"
  from assms obtain r where r: "drop (length ?number) t = sep # r"
    and sep: "sep = 46 \<or> sep = 41"
    and g: "l = leading" "number = ?number" "trailing = takeWhile is_space r"
    and n: "n = length leading + length number + 1 + length trailing"
    by (auto simp: marker_tail_def Let_def split: if_splits list.splits)
  have pre: "take (length ?number) t = ?number"
    by (metis append_eq_conv_conj append_take_drop_id takeWhile_dropWhile_id append.assoc)
  have t: "t = number @ sep # takeWhile is_space r @ dropWhile is_space r"
    using r pre g(2) by (metis append_take_drop_id takeWhile_dropWhile_id)
  have "take (length (number @ sep # trailing)) t = number @ sep # trailing"
    using t g(3) by (metis append.assoc append_Cons append_eq_conv_conj)
  moreover have "n = length leading + length (number @ sep # trailing)"
    using n by simp
  ultimately show ?thesis
    using sep g by blast
qed

lemma take_run_Cons:
  "dropWhile P t = c # rest \<Longrightarrow> take (Suc (length (takeWhile P t))) t = takeWhile P t @ [c]"
  by (metis append.assoc append_Cons append_Nil append_eq_conv_conj length_append_singleton
      takeWhile_dropWhile_id)

lemma binary_shape:
  assumes "dropWhile is_space (dropWhile P t) = e # r0"
  shows "take (length t - length (dropWhile P (dropWhile is_space r0))) t
       = (takeWhile P t @ takeWhile is_space (dropWhile P t) @ e # takeWhile is_space r0)
         @ takeWhile P (dropWhile is_space r0)"
proof (rule take_upto_rest)
  have "dropWhile P t = takeWhile is_space (dropWhile P t) @ e # r0"
    using assms by (metis takeWhile_dropWhile_id)
  moreover have "r0 = takeWhile is_space r0 @ dropWhile is_space r0" by simp
  moreover have "t = takeWhile P t @ dropWhile P t" by simp
  ultimately show "t = (takeWhile P t @ takeWhile is_space (dropWhile P t) @ e # takeWhile is_space r0)
      @ dropWhile is_space r0"
    by (metis append.assoc append_Cons)
qed

lemma numbered_keep:
  assumes "filter kept pw = []"
  shows "filter kept (re_sub (numbered_point_pattern U) (replace_numbered_point pw) t)
       = filter kept t"
  unfolding re_sub_def
proof (rule scan_filter)
  fix prev t g n
  assume m: "numbered_point_pattern U prev t = Some (g, n)"
  obtain l number sep trailing where g: "g = (l, number, sep, trailing)" by (cases g)
  have sp: "\<And>x. filter kept (takeWhile is_space x) = []" by (rule filter_kept_spaces)
  from m g consider
      (start) "marker_tail U [] t = Some ((l, number, sep, trailing), n)"
    | (line) r where "t = 10 # r" "marker_tail U [10] r = Some ((l, number, sep, trailing), n)"
    by (auto simp: numbered_point_pattern_def split: option.splits if_splits list.splits)
  then show "filter kept (replace_numbered_point pw g) = filter kept (take n t)"
  proof cases
    case start
    from marker_tail_shape [OF start] obtain k x where
      "l = []" "n = k" "take k t = number @ sep # trailing" "sep = 46 \<or> sep = 41"
      "trailing = takeWhile is_space x"
      by auto
    with assms g show ?thesis
      by (auto simp: replace_numbered_point_def kept_def sp)
  next
    case line
    from marker_tail_shape [OF line(2)] obtain k x where
      s: "l = [10]" "n = Suc k" "take k r = number @ sep # trailing" "sep = 46 \<or> sep = 41"
      "trailing = takeWhile is_space x"
      by auto
    have "take n t = 10 # take k r"
      using line(1) s(2) by simp
    with s assms g show ?thesis
      by (auto simp: replace_numbered_point_def kept_def sp)
  qed
qed

lemma equation_keep:
  assumes "filter kept w = []"
  shows "filter kept (re_sub (equation_pattern U) (\<lambda>(l, r). l @ w @ r) t) = filter kept t"
  unfolding re_sub_def
proof (rule scan_filter)
  fix prev t g n
  assume m: "equation_pattern U prev t = Some (g, n)"
  then obtain r0 where d: "dropWhile is_space (dropWhile (is_word U) t) = 61 # r0"
    and g: "g = (takeWhile (is_word U) t, takeWhile (is_word U) (dropWhile is_space r0))"
    and n: "n = length t - length (dropWhile (is_word U) (dropWhile is_space r0))"
    by (auto simp: equation_pattern_def Let_def split: if_splits list.splits)
  show "filter kept (case g of (l, r) \<Rightarrow> l @ w @ r) = filter kept (take n t)"
    unfolding n binary_shape [OF d] g
    using assms by (simp add: filter_kept_spaces kept_def)
qed

lemma standalone_keep:
  assumes "filter kept w = []"
  shows "filter kept (re_sub standalone_equals_pattern (\<lambda>_. w) t) = filter kept t"
  unfolding re_sub_def
proof (rule scan_filter)
  fix prev t g n
  assume "standalone_equals_pattern prev t = Some (g, n)"
  then obtain r where "t = 61 # r" "n = 1"
    by (auto simp: standalone_equals_pattern_def split: option.splits list.splits if_splits)
  with assms show "filter kept w = filter kept (take n t)"
    by (simp add: kept_def)
qed

lemma plus_keep:
  assumes "filter kept w = []"
  shows "filter kept (re_sub (plus_pattern U) (\<lambda>(l, r). l @ w @ r) t) = filter kept t"
  unfolding re_sub_def
proof (rule scan_filter)
  fix prev t g n
  assume m: "plus_pattern U prev t = Some (g, n)"
  then obtain r0 where d: "dropWhile is_space (dropWhile (is_digit U) t) = 43 # r0"
    and g: "g = (takeWhile (is_digit U) t, takeWhile (is_digit U) (dropWhile is_space r0))"
    and n: "n = length t - length (dropWhile (is_digit U) (dropWhile is_space r0))"
    by (auto simp: plus_pattern_def Let_def split: if_splits list.splits)
  show "filter kept (case g of (l, r) \<Rightarrow> l @ w @ r) = filter kept (take n t)"
    unfolding n binary_shape [OF d] g
    using assms by (simp add: filter_kept_spaces kept_def)
qed

lemma percent_keep:
  assumes "filter kept w = []"
  shows "filter kept (re_sub (percent_pattern U) (\<lambda>d. d @ w) t) = filter kept t"
  unfolding re_sub_def
proof (rule scan_filter)
  fix prev t g n
  assume m: "percent_pattern U prev t = Some (g, n)"
  then obtain r where d: "dropWhile (is_digit U) t = 37 # r"
    and g: "g = takeWhile (is_digit U) t" and n: "n = Suc (length g)"
    by (auto simp: percent_pattern_def Let_def split: if_splits list.splits)
  show "filter kept (g @ w) = filter kept (take n t)"
    unfolding n g take_run_Cons [OF d] using assms by (simp add: kept_def)
qed

lemma amount_keep:
  assumes "filter kept w = []" "\<not> kept s"
  shows "filter kept (re_sub (amount_pattern U s) (\<lambda>a. a @ w) t) = filter kept t"
  unfolding re_sub_def
proof (rule scan_filter)
  fix prev t g n
  assume m: "amount_pattern U s prev t = Some (g, n)"
  then obtain r where t: "t = s # r" by (auto simp: amount_pattern_def split: list.splits if_splits)
  let ?ds = "takeWhile (is_digit U) r"
  from m t consider
      (dec) a b r' where "dropWhile (is_digit U) r = 46 # a # b # r'" "g = ?ds @ [46, a, b]"
        "n = length ?ds + 4"
    | (plain) "g = ?ds" "n = length ?ds + 1"
    by (auto simp: amount_pattern_def Let_def split: list.splits if_splits)
  then show "filter kept (g @ w) = filter kept (take n t)"
  proof cases
    case dec
    have "r = ?ds @ 46 # a # b # r'"
      using dec(1) by (metis takeWhile_dropWhile_id)
    then have "t = (s # ?ds @ [46, a, b]) @ r'" using t by simp
    then have "take n t = s # ?ds @ [46, a, b]"
      unfolding dec(3) by (metis append_eq_conv_conj length_append length_Cons list.size(3,4)
          add_Suc_right add_2_eq_Suc' numeral_Bit0 add.right_neutral One_nat_def Suc_eq_plus1)
    with dec assms show ?thesis by simp
  next
    case plain
    have "r = ?ds @ dropWhile (is_digit U) r" by simp
    then have "t = (s # ?ds) @ dropWhile (is_digit U) r" using t by simp
    then have "take n t = s # ?ds"
      unfolding plain(2) by (metis append_eq_conv_conj length_Cons Suc_eq_plus1)
    with plain assms show ?thesis by simp
  qed
qed

lemma bullet_tail_shape:
  assumes "bullet_tail leading t = Some (g, n)"
  shows "\<exists>k. g = leading \<and> n = length leading + k \<and> filter kept (take k t) = []"
proof -
  from assms obtain b r where d: "dropWhile is_space t = b # r" and b: "is_bullet b"
    and g: "g = leading" and n: "n = length leading + (length t - length (dropWhile is_space r))"
    by (auto simp: bullet_tail_def split: list.splits if_splits)
  have "t = (takeWhile is_space t @ [b]) @ r"
    using d by (metis append.assoc append_Cons append_Nil takeWhile_dropWhile_id)
  then have "take (length t - length (dropWhile is_space r)) t
      = (takeWhile is_space t @ [b]) @ takeWhile is_space r"
    by (rule take_upto_rest)
  moreover have "\<not> kept b" using b by (auto simp: kept_def is_bullet_def)
  ultimately have "filter kept (take (length t - length (dropWhile is_space r)) t) = []"
    by (simp add: filter_kept_spaces)
  with g n show ?thesis by blast
qed

lemma bullet_keep:
  "filter kept (re_sub bullet_pattern (\<lambda>leading. leading) t) = filter kept t"
  unfolding re_sub_def
proof (rule scan_filter)
  fix prev t g n
  assume m: "bullet_pattern prev t = Some (g, n)"
  then consider
      (start) "bullet_tail [] t = Some (g, n)"
    | (line) r where "t = 10 # r" "bullet_tail [10] r = Some (g, n)"
    by (auto simp: bullet_pattern_def split: option.splits if_splits list.splits)
  then show "filter kept g = filter kept (take n t)"
  proof cases
    case start
    from bullet_tail_shape [OF start] show ?thesis by auto
  next
    case line
    from bullet_tail_shape [OF line(2)] obtain k where
      s: "g = [10]" "n = Suc k" "filter kept (take k r) = []"
      by auto
    then show ?thesis using line(1) by (simp add: kept_def)
  qed
qed

lemma ampersand_keep:
  assumes "filter kept w = []"
  shows "filter kept (re_sub ampersand_pattern (\<lambda>_. w) t) = filter kept t"
  unfolding re_sub_def
proof (rule scan_filter)
  fix prev t g n
  assume "ampersand_pattern prev t = Some (g, n)"
  then obtain r where d: "dropWhile is_space t = 38 # r"
    and n: "n = length t - length (dropWhile is_space r)"
    by (auto simp: ampersand_pattern_def split: list.splits if_splits)
  have "t = (takeWhile is_space t @ [38]) @ r"
    using d by (metis append.assoc append_Cons append_Nil takeWhile_dropWhile_id)
  then have "take n t = (takeWhile is_space t @ [38]) @ takeWhile is_space r"
    unfolding n by (rule take_upto_rest)
  with assms show "filter kept w = filter kept (take n t)"
    by (simp add: filter_kept_spaces kept_def)
qed

lemma hash_keep:
  assumes "filter kept w = []"
  shows "filter kept (re_sub (hash_pattern U) (\<lambda>d. w @ d) t) = filter kept t"
  unfolding re_sub_def
proof (rule scan_filter)
  fix prev t g n
  assume "hash_pattern U prev t = Some (g, n)"
  then obtain r where t: "t = 35 # r" and g: "g = takeWhile (is_digit U) r"
    and n: "n = Suc (length g)"
    by (auto simp: hash_pattern_def split: list.splits if_splits)
  have "take (length g) r = g"
    unfolding g by (metis append_eq_conv_conj takeWhile_dropWhile_id)
  with assms t n show "filter kept (w @ g) = filter kept (take n t)"
    by (simp add: kept_def)
qed

lemma spaces_keep:
  "filter kept (re_sub spaces_pattern (\<lambda>_. [32]) t) = filter kept t"
  unfolding re_sub_def
proof (rule scan_filter)
  fix prev t g n
  assume "spaces_pattern prev t = Some (g, n)"
  then obtain r where t: "t = 32 # 32 # r"
    and n: "n = length t - length (dropWhile (\<lambda>c. c = 32) r)"
    by (auto simp: spaces_pattern_def split: list.splits if_splits)
  have "t = [32, 32] @ r" using t by simp
  then have "take n t = [32, 32] @ takeWhile (\<lambda>c. c = 32) r"
    unfolding n by (rule take_upto_rest)
  moreover have "filter kept (takeWhile (\<lambda>c. c = 32) r) = []"
    by (induction r) (auto simp: kept_def)
  ultimately show "filter kept [32] = filter kept (take n t)"
    by (simp add: kept_def)
qed

lemma table_cases: "get_symbol_map lang = SYMBOL_MAP_EN \<or> get_symbol_map lang = SYMBOL_MAP_RU"
  by (auto simp: get_symbol_map_def LANGUAGE_MAPS_def split: option.splits if_splits)

lemma table_phrases_clean:
  assumes "current_map self = SYMBOL_MAP_EN \<or> current_map self = SYMBOL_MAP_RU"
  shows "filter kept (dict_get (current_map self) ''point'' (u ''Point '')) = []"
    and "filter kept (dict_get (current_map self) ''equals'' (u '' equals '')) = []"
    and "filter kept (dict_get (current_map self) ''plus'' (u '' plus '')) = []"
    and "filter kept (dict_get (current_map self) ''percent'' (u '' percent'')) = []"
    and "filter kept (dict_get (current_map self) ''greater_or_equal''
           (u '' greater than or equal to '')) = []"
    and "filter kept (dict_get (current_map self) ''less_or_equal''
           (u '' less than or equal to '')) = []"
    and "filter kept (dict_get (current_map self) ''not_equal'' (u '' not equal to '')) = []"
    and "filter kept (dict_get (current_map self) ''dollars'' (u '' dollars'')) = []"
    and "filter kept (dict_get (current_map self) ''euros'' (u '' euros'')) = []"
    and "filter kept (dict_get (current_map self) ''pounds'' (u '' pounds'')) = []"
    and "filter kept (dict_get (current_map self) ''rubles'' (u '' rubles'')) = []"
    and "filter kept (dict_get (current_map self) ''and'' (u '' and '')) = []"
    and "filter kept (dict_get (current_map self) ''number'' (u '' number '')) = []"
    and "filter kept (dict_get (current_map self) ''arrow'' (u '' arrow '')) = []"
  using assms
  by (auto simp: kept_def dict_get_def SYMBOL_MAP_EN_def SYMBOL_MAP_RU_def u_def)

lemma lists_keep:
  assumes "current_map self = SYMBOL_MAP_EN \<or> current_map self = SYMBOL_MAP_RU"
  shows "filter kept (convert_numbered_lists U self t) = filter kept t"
  unfolding convert_numbered_lists_def Let_def
  by (rule numbered_keep) (rule table_phrases_clean [OF assms])

lemma operators_clean:
  "filter kept (u ''>='') = []" "filter kept (u ''<='') = []" "filter kept (u ''!='') = []"
  "filter kept (u ''=='') = []" "filter kept [8594] = []" "filter kept [8592] = []"
  "filter kept (u ''->'') = []" "filter kept (u ''<-'') = []"
  "\<not> kept 36" "\<not> kept 8364" "\<not> kept 163" "\<not> kept 8381"
  by (simp_all add: kept_def u_def)

lemma math_keep:
  assumes "current_map self = SYMBOL_MAP_EN \<or> current_map self = SYMBOL_MAP_RU"
  shows "filter kept (convert_math_expressions U self t) = filter kept t"
  unfolding convert_math_expressions_def Let_def
  by (simp only: percent_keep plus_keep standalone_keep equation_keep literal_keep
      operators_clean table_phrases_clean [OF assms])

lemma symbols_keep:
  assumes "current_map self = SYMBOL_MAP_EN \<or> current_map self = SYMBOL_MAP_RU"
  shows "filter kept (convert_standalone_symbols U self t) = filter kept t"
  unfolding convert_standalone_symbols_def Let_def
  by (simp only: literal_keep hash_keep ampersand_keep bullet_keep amount_keep
      operators_clean table_phrases_clean [OF assms] not_False_eq_True)

lemma transform_keep: "filter kept (transform U detect t hint) = filter kept t"
proof -
  define self where "self = init\<lparr>current_map :=
      get_symbol_map (if hint = None \<or> hint = Some [] then Some (detect t) else hint)\<rparr>"
  have m: "current_map self = SYMBOL_MAP_EN \<or> current_map self = SYMBOL_MAP_RU"
    unfolding self_def using table_cases by simp
  have "transform U detect t hint = re_sub spaces_pattern (\<lambda>_. [32])
      (convert_standalone_symbols U self (convert_math_expressions U self
        (convert_numbered_lists U self t)))"
    by (simp add: transform_def process_def Let_def self_def)
  then show ?thesis
    by (simp only: spaces_keep symbols_keep [OF m] math_keep [OF m] lists_keep [OF m])
qed

lemma unused_entries:
  "convert_numbered_lists U
     (self\<lparr>current_map := (current_map self)
        (''times'' := a, ''divided_by'' := b, ''at'' := c, ''yen'' := d)\<rparr>) t
     = convert_numbered_lists U self t"
  "convert_math_expressions U
     (self\<lparr>current_map := (current_map self)
        (''times'' := a, ''divided_by'' := b, ''at'' := c, ''yen'' := d)\<rparr>) t
     = convert_math_expressions U self t"
  "convert_standalone_symbols U
     (self\<lparr>current_map := (current_map self)
        (''times'' := a, ''divided_by'' := b, ''at'' := c, ''yen'' := d)\<rparr>) t
     = convert_standalone_symbols U self t"
  by (simp_all add: convert_numbered_lists_def convert_math_expressions_def
      convert_standalone_symbols_def dict_get_def)

text \<open>
  C9: for every text, hint, detection and character database, the asterisks, slashes, at
  signs and yen signs of the output of \<open>transform\<close> are those of the input, in number and
  order: none is removed or replaced, none is added. Both tables define non-empty
  phrases for \<open>times\<close>, \<open>divided_by\<close>, \<open>at\<close> and \<open>yen\<close>, and no pass reads them: with any
  table, each pass returns the same text when these four entries are changed to
  anything (or removed).
\<close>

theorem unused_phrases:
  "filter kept (transform U detect t hint) = filter kept t
   \<and> list_all (\<lambda>m. list_all (\<lambda>k. m k \<noteq> None \<and> m k \<noteq> Some [])
         [''times'', ''divided_by'', ''at'', ''yen'']) [SYMBOL_MAP_EN, SYMBOL_MAP_RU]
   \<and> convert_numbered_lists U
       (self\<lparr>current_map := (current_map self)
          (''times'' := a, ''divided_by'' := b, ''at'' := c, ''yen'' := d)\<rparr>) x
       = convert_numbered_lists U self x
   \<and> convert_math_expressions U
       (self\<lparr>current_map := (current_map self)
          (''times'' := a, ''divided_by'' := b, ''at'' := c, ''yen'' := d)\<rparr>) x
       = convert_math_expressions U self x
   \<and> convert_standalone_symbols U
       (self\<lparr>current_map := (current_map self)
          (''times'' := a, ''divided_by'' := b, ''at'' := c, ''yen'' := d)\<rparr>) x
       = convert_standalone_symbols U self x"
proof -
  have "list_all (\<lambda>m. list_all (\<lambda>k. m k \<noteq> None \<and> m k \<noteq> Some [])
         [''times'', ''divided_by'', ''at'', ''yen'']) [SYMBOL_MAP_EN, SYMBOL_MAP_RU]"
    by (simp add: SYMBOL_MAP_EN_def SYMBOL_MAP_RU_def u_def)
  then show ?thesis
    by (simp only: transform_keep unused_entries simp_thms)
qed

theorem unused_phrases_witness:
  "filter kept (transform cyrillic_db (always (u ''en'')) (u ''2*3/4 @ 5'' @ [165]) (Some (u ''en'')))
     = u ''*/@'' @ [165]"
  using unused_phrases [of cyrillic_db "always (u ''en'')" "u ''2*3/4 @ 5'' @ [165]" "Some (u ''en'')"]
  by (simp add: u_def kept_def)

section \<open>Markers and bullets where the scan reaches them\<close>

lemma marker_tail_match:
  assumes ds: "ds \<noteq> []" "length ds \<le> 3" "list_all (is_digit U) ds"
    and sep: "sep = 46 \<or> sep = 41"
    and ws: "list_all is_space ws" "stops is_space rest"
  shows "marker_tail U leading (ds @ sep # ws @ rest)
       = Some ((leading, ds, sep, ws), length leading + length ds + 1 + length ws)"
proof -
  have st: "stops (is_digit U) (sep # ws @ rest)"
    using sep by (auto simp: stops_def is_digit_def)
  have tw: "takeWhile (is_digit U) (ds @ sep # ws @ rest) = ds"
    using ds(3) st by (rule takeWhile_run)
  have tws: "takeWhile is_space (ws @ rest) = ws"
    using ws by (rule takeWhile_run)
  show ?thesis
    unfolding marker_tail_def Let_def tw
    using ds(1,2) sep by (auto simp: tws)
qed

lemma marker_step_start:
  assumes ds: "ds \<noteq> []" "length ds \<le> 3" "list_all (is_digit U) ds"
    and sep: "sep = 46 \<or> sep = 41"
    and ws: "list_all is_space ws" "stops is_space rest"
  shows "scan (numbered_point_pattern U) (replace_numbered_point pw) None (ds @ sep # ws @ rest)
       = (if sep = 46 then pw @ ds @ [46] @ ws else ds @ [46] @ ws)
         @ scan (numbered_point_pattern U) (replace_numbered_point pw) (Some (last (sep # ws))) rest"
proof -
  let ?t = "ds @ sep # ws @ rest"
  let ?pre = "ds @ sep # ws"
  have m: "numbered_point_pattern U None ?t = Some (([], ds, sep, ws), length ?pre)"
    using marker_tail_match [OF assms, of "[]"] by (simp add: numbered_point_pattern_def)
  have t: "?t = ?pre @ rest" by simp
  have dr: "drop (length ?pre) ?t = rest"
    unfolding t by (rule append_eq_conv_conj [THEN iffD1, THEN conjunct2, symmetric]) simp
  have "?pre \<noteq> []" by simp
  then have "(?pre @ rest) ! (length ?pre - 1) = last ?pre" by (rule nth_before_append)
  then have lst: "?t ! (length ?pre - 1) = last (sep # ws)" by simp
  have "0 < length ?pre" "length ?pre \<le> length ?t" by simp_all
  from scan_match [of "numbered_point_pattern U" None ?t "([], ds, sep, ws)" "length ?pre"
      "replace_numbered_point pw", OF m this]
  show ?thesis
    unfolding dr lst by (simp add: replace_numbered_point_def)
qed

lemma marker_step_line:
  assumes ds: "ds \<noteq> []" "length ds \<le> 3" "list_all (is_digit U) ds"
    and sep: "sep = 46 \<or> sep = 41"
    and ws: "list_all is_space ws" "stops is_space rest"
  shows "scan (numbered_point_pattern U) (replace_numbered_point pw) prev (10 # ds @ sep # ws @ rest)
       = 10 # (if sep = 46 then pw @ ds @ [46] @ ws else ds @ [46] @ ws)
         @ scan (numbered_point_pattern U) (replace_numbered_point pw) (Some (last (sep # ws))) rest"
proof -
  let ?t = "10 # ds @ sep # ws @ rest"
  let ?pre = "10 # ds @ sep # ws"
  have "takeWhile (is_digit U) ?t = []" by (simp add: is_digit_def)
  then have none: "marker_tail U [] ?t = None" by (simp add: marker_tail_def)
  have m: "numbered_point_pattern U prev ?t = Some (([10], ds, sep, ws), length ?pre)"
    using marker_tail_match [OF assms, of "[10]"] none by (simp add: numbered_point_pattern_def)
  have t: "?t = ?pre @ rest" by simp
  have dr: "drop (length ?pre) ?t = rest"
    unfolding t by (rule append_eq_conv_conj [THEN iffD1, THEN conjunct2, symmetric]) simp
  have "?pre \<noteq> []" by simp
  then have "(?pre @ rest) ! (length ?pre - 1) = last ?pre" by (rule nth_before_append)
  then have lst: "?t ! (length ?pre - 1) = last (sep # ws)" by simp
  have "0 < length ?pre" "length ?pre \<le> length ?t" by simp_all
  from scan_match [of "numbered_point_pattern U" prev ?t "([10], ds, sep, ws)" "length ?pre"
      "replace_numbered_point pw", OF m this]
  show ?thesis
    unfolding dr lst by (simp add: replace_numbered_point_def)
qed

lemma bullet_tail_match:
  assumes "list_all is_space ws" "is_bullet b" "list_all is_space ws'" "stops is_space rest"
  shows "bullet_tail leading (ws @ b # ws' @ rest)
       = Some (leading, length leading + length (ws @ b # ws'))"
proof -
  have nb: "\<not> is_space b" using assms(2) by (auto simp: is_bullet_def is_space_def)
  have d1: "dropWhile is_space (ws @ b # ws' @ rest) = b # ws' @ rest"
    using assms(1) nb by (simp add: dropWhile_run stops_def)
  have d2: "dropWhile is_space (ws' @ rest) = rest"
    using assms(3,4) by (rule dropWhile_run)
  show ?thesis
    unfolding bullet_tail_def d1 list.case d2 using assms(2) by simp
qed

lemma bullet_step_start:
  assumes "list_all is_space ws" "is_bullet b" "list_all is_space ws'" "stops is_space rest"
  shows "scan bullet_pattern (\<lambda>leading. leading) None (ws @ b # ws' @ rest)
       = scan bullet_pattern (\<lambda>leading. leading) (Some (last (b # ws'))) rest"
proof -
  let ?t = "ws @ b # ws' @ rest"
  let ?pre = "ws @ b # ws'"
  have m: "bullet_pattern None ?t = Some ([], length ?pre)"
    using bullet_tail_match [OF assms, of "[]"] by (simp add: bullet_pattern_def)
  have t: "?t = ?pre @ rest" by simp
  have dr: "drop (length ?pre) ?t = rest"
    unfolding t by (rule append_eq_conv_conj [THEN iffD1, THEN conjunct2, symmetric]) simp
  have "?pre \<noteq> []" by simp
  then have "(?pre @ rest) ! (length ?pre - 1) = last ?pre" by (rule nth_before_append)
  then have lst: "?t ! (length ?pre - 1) = last (b # ws')" by simp
  have "0 < length ?pre" "length ?pre \<le> length ?t" by simp_all
  from scan_match [of bullet_pattern None ?t "[]" "length ?pre" "\<lambda>leading. leading", OF m this]
  show ?thesis
    unfolding dr lst by simp
qed

lemma bullet_step_line:
  assumes "list_all is_space ws" "is_bullet b" "list_all is_space ws'" "stops is_space rest"
  shows "scan bullet_pattern (\<lambda>leading. leading) (Some p) (10 # ws @ b # ws' @ rest)
       = 10 # scan bullet_pattern (\<lambda>leading. leading) (Some (last (b # ws'))) rest"
proof -
  let ?t = "10 # ws @ b # ws' @ rest"
  let ?pre = "10 # ws @ b # ws'"
  have m: "bullet_pattern (Some p) ?t = Some ([10], length ?pre)"
    using bullet_tail_match [OF assms, of "[10]"] by (simp add: bullet_pattern_def)
  have t: "?t = ?pre @ rest" by simp
  have dr: "drop (length ?pre) ?t = rest"
    unfolding t by (rule append_eq_conv_conj [THEN iffD1, THEN conjunct2, symmetric]) simp
  have "?pre \<noteq> []" by simp
  then have "(?pre @ rest) ! (length ?pre - 1) = last ?pre" by (rule nth_before_append)
  then have lst: "?t ! (length ?pre - 1) = last (b # ws')" by simp
  have "0 < length ?pre" "length ?pre \<le> length ?t" by simp_all
  from scan_match [of bullet_pattern "Some p" ?t "[10]" "length ?pre" "\<lambda>leading. leading", OF m this]
  show ?thesis
    unfolding dr lst by simp
qed

text \<open>
  The policy of the numbered-list pass, where the scan stands at the start of the text
  or at a newline: a marker of one to three digits \<open>ds\<close>, a separator and the white space
  \<open>ws\<close> behind it becomes the point phrase, \<open>ds\<close>, a period and \<open>ws\<close> when the separator is
  a period, and \<open>ds\<close>, a period and \<open>ws\<close> when it is a closing parenthesis; the scan goes
  on behind \<open>ws\<close>.
\<close>

theorem marker_policy:
  "(ds \<noteq> [] \<and> length ds \<le> 3 \<and> list_all (is_digit U) ds \<and> (sep = 46 \<or> sep = 41)
      \<and> list_all is_space ws \<and> stops is_space rest \<longrightarrow>
    scan (numbered_point_pattern U) (replace_numbered_point pw) None (ds @ sep # ws @ rest)
      = (if sep = 46 then pw @ ds @ [46] @ ws else ds @ [46] @ ws)
        @ scan (numbered_point_pattern U) (replace_numbered_point pw) (Some (last (sep # ws))) rest
    \<and> scan (numbered_point_pattern U) (replace_numbered_point pw) prev
        (10 # ds @ sep # ws @ rest)
      = 10 # (if sep = 46 then pw @ ds @ [46] @ ws else ds @ [46] @ ws)
        @ scan (numbered_point_pattern U) (replace_numbered_point pw) (Some (last (sep # ws))) rest)"
proof (intro impI)
  assume a: "ds \<noteq> [] \<and> length ds \<le> 3 \<and> list_all (is_digit U) ds \<and> (sep = 46 \<or> sep = 41)
      \<and> list_all is_space ws \<and> stops is_space rest"
  then have h: "ds \<noteq> []" "length ds \<le> 3" "list_all (is_digit U) ds" "sep = 46 \<or> sep = 41"
    "list_all is_space ws" "stops is_space rest"
    by blast+
  show "scan (numbered_point_pattern U) (replace_numbered_point pw) None (ds @ sep # ws @ rest)
      = (if sep = 46 then pw @ ds @ [46] @ ws else ds @ [46] @ ws)
        @ scan (numbered_point_pattern U) (replace_numbered_point pw) (Some (last (sep # ws))) rest
    \<and> scan (numbered_point_pattern U) (replace_numbered_point pw) prev
        (10 # ds @ sep # ws @ rest)
      = 10 # (if sep = 46 then pw @ ds @ [46] @ ws else ds @ [46] @ ws)
        @ scan (numbered_point_pattern U) (replace_numbered_point pw) (Some (last (sep # ws))) rest"
    by (rule conjI [OF marker_step_start [OF h] marker_step_line [OF h]])
qed

theorem marker_policy_witness:
  "(u ''3'' \<noteq> [] \<and> length (u ''3'') \<le> 3 \<and> list_all (is_digit cyrillic_db) (u ''3'')
     \<and> ((41::nat) = 46 \<or> (41::nat) = 41) \<and> list_all is_space [32] \<and> stops is_space (u ''Buy milk''))
   \<and> scan (numbered_point_pattern cyrillic_db) (replace_numbered_point (u ''Point '')) None
        (u ''3'' @ 41 # [32] @ u ''Buy milk'')
      = (u ''3'' @ [46] @ [32])
        @ scan (numbered_point_pattern cyrillic_db) (replace_numbered_point (u ''Point ''))
            (Some 32) (u ''Buy milk'')"
proof -
  have h: "u ''3'' \<noteq> [] \<and> length (u ''3'') \<le> 3 \<and> list_all (is_digit cyrillic_db) (u ''3'')
     \<and> ((41::nat) = 46 \<or> (41::nat) = 41) \<and> list_all is_space [32] \<and> stops is_space (u ''Buy milk'')"
    by (simp add: u_def is_digit_def is_space_def stops_def)
  have c: "scan (numbered_point_pattern cyrillic_db) (replace_numbered_point (u ''Point '')) None
        (u ''3'' @ 41 # [32] @ u ''Buy milk'')
      = (u ''3'' @ [46] @ [32])
        @ scan (numbered_point_pattern cyrillic_db) (replace_numbered_point (u ''Point ''))
            (Some 32) (u ''Buy milk'')"
    using mp [OF marker_policy
        [of "u ''3''" cyrillic_db 41 "[32]" "u ''Buy milk''" "u ''Point ''" None] h]
    by (simp del: scan.simps)
  show ?thesis by (rule conjI [OF h c])
qed

text \<open>
  Indented bullets, where the scan stands at the start of the text or at a newline: the
  white space \<open>ws\<close>, the bullet and the white space \<open>ws'\<close> behind it are deleted (at a
  newline the newline itself is kept); the scan goes on behind \<open>ws'\<close>.
\<close>

theorem indented_bullets:
  "(list_all is_space ws \<and> is_bullet b \<and> list_all is_space ws' \<and> stops is_space rest \<longrightarrow>
    scan bullet_pattern (\<lambda>leading. leading) None (ws @ b # ws' @ rest)
      = scan bullet_pattern (\<lambda>leading. leading) (Some (last (b # ws'))) rest
    \<and> scan bullet_pattern (\<lambda>leading. leading) (Some p) (10 # ws @ b # ws' @ rest)
      = 10 # scan bullet_pattern (\<lambda>leading. leading) (Some (last (b # ws'))) rest)"
proof (intro impI)
  assume a: "list_all is_space ws \<and> is_bullet b \<and> list_all is_space ws' \<and> stops is_space rest"
  then have h: "list_all is_space ws" "is_bullet b" "list_all is_space ws'" "stops is_space rest"
    by blast+
  show "scan bullet_pattern (\<lambda>leading. leading) None (ws @ b # ws' @ rest)
      = scan bullet_pattern (\<lambda>leading. leading) (Some (last (b # ws'))) rest
    \<and> scan bullet_pattern (\<lambda>leading. leading) (Some p) (10 # ws @ b # ws' @ rest)
      = 10 # scan bullet_pattern (\<lambda>leading. leading) (Some (last (b # ws'))) rest"
    by (rule conjI [OF bullet_step_start [OF h] bullet_step_line [OF h]])
qed

theorem indented_bullets_witness:
  "(list_all is_space [32, 32] \<and> is_bullet 8226 \<and> list_all is_space [32]
     \<and> stops is_space (u ''a''))
   \<and> scan bullet_pattern (\<lambda>leading. leading) (Some 120) (10 # [32, 32] @ 8226 # [32] @ u ''a'')
      = 10 # scan bullet_pattern (\<lambda>leading. leading) (Some 32) (u ''a'')"
proof -
  have h: "list_all is_space [32, 32] \<and> is_bullet 8226 \<and> list_all is_space [32]
     \<and> stops is_space (u ''a'')"
    by (simp add: u_def is_bullet_def is_space_def stops_def)
  have c: "scan bullet_pattern (\<lambda>leading. leading) (Some 120) (10 # [32, 32] @ 8226 # [32] @ u ''a'')
      = 10 # scan bullet_pattern (\<lambda>leading. leading) (Some 32) (u ''a'')"
    using mp [OF indented_bullets [of "[32, 32]" 8226 "[32]" "u ''a''" 120] h]
    by (simp del: scan.simps)
  show ?thesis by (rule conjI [OF h c])
qed

end
